theory Spec2Isabelle
  imports Main "HOL-Library.Sublist" "HOL-Library.AList"
begin

section \<open>The remote table \<open>scraped_articles\<close>\<close>

text \<open>
  Timestamps are points on a linear time axis. The client renders its UTC clock as an
  ISO-8601 string (\<open>datetime.utcnow().isoformat()\<close>); the table stores the instant.
\<close>

type_synonym timestamp = nat

record row =
  row_id :: nat
  source_id :: string
  url :: string
  first_seen :: timestamp
  last_checked :: timestamp

text \<open>
  The remote side as the tracker sees it: the table, the sequence that assigns \<open>id\<close>,
  the clock the table uses for column defaults, the number of requests received so far,
  and the outcomes of the requests still to come (\<open>True\<close>: the request raises at the
  client; an exhausted schedule means every further request succeeds).
\<close>

record remote =
  rows :: "row list"
  next_id :: nat
  db_now :: timestamp
  requests :: nat
  faults :: "bool list"

text \<open>The dictionary passed to \<open>upsert\<close>: a column that is absent is \<open>None\<close>.\<close>

record payload =
  p_source_id :: string
  p_url :: string
  p_first_seen :: "timestamp option"
  p_last_checked :: "timestamp option"

text \<open>
  \<open>execute()\<close>: one request reaches the remote side and takes the next outcome of the
  schedule. The result is \<open>True\<close> when the request succeeds.
\<close>

definition execute :: "remote \<Rightarrow> bool \<times> remote" where
  "execute r =
     (case faults r of
        [] \<Rightarrow> (True, r\<lparr>requests := Suc (requests r)\<rparr>)
      | f # fs \<Rightarrow> (\<not> f, r\<lparr>requests := Suc (requests r), faults := fs\<rparr>))"

text \<open>A read request: on success the response carries what \<open>q\<close> selects from the table.\<close>

definition query :: "(row list \<Rightarrow> 'a) \<Rightarrow> remote \<Rightarrow> 'a option \<times> remote" where
  "query q r = (let (ok, r') = execute r in (if ok then Some (q (rows r')) else None, r'))"

text \<open>
  A write request: on success the table changes by \<open>w\<close>; a request that raises leaves
  the table as it was.
\<close>

definition command :: "(remote \<Rightarrow> remote) \<Rightarrow> remote \<Rightarrow> bool \<times> remote" where
  "command w r = (let (ok, r') = execute r in (ok, if ok then w r' else r'))"

definition conflicts :: "payload \<Rightarrow> row \<Rightarrow> bool" where
  "conflicts p x \<longleftrightarrow> source_id x = p_source_id p \<and> url x = p_url p"

text \<open>
  Modelled from the spec: on a conflict the storage service, which is not part of the
  repository, overwrites the columns the payload names and keeps the others.
\<close>

definition merge_row :: "payload \<Rightarrow> row \<Rightarrow> row" where
  "merge_row p x =
     x\<lparr>first_seen := (case p_first_seen p of None \<Rightarrow> first_seen x | Some v \<Rightarrow> v),
       last_checked := (case p_last_checked p of None \<Rightarrow> last_checked x | Some v \<Rightarrow> v)\<rparr>"

text \<open>
  Modelled from the spec: an inserted row gets the next \<open>id\<close>, and the table's clock as
  the default of a timestamp the payload leaves out.
\<close>

definition fresh_row :: "payload \<Rightarrow> remote \<Rightarrow> row" where
  "fresh_row p r =
     \<lparr>row_id = next_id r, source_id = p_source_id p, url = p_url p,
      first_seen = (case p_first_seen p of None \<Rightarrow> db_now r | Some v \<Rightarrow> v),
      last_checked = (case p_last_checked p of None \<Rightarrow> db_now r | Some v \<Rightarrow> v)\<rparr>"

text \<open>
  Modelled from the spec: the table's upsert with conflict target \<open>(source_id, url)\<close>,
  which belongs to the storage service and is not part of the repository. A row with the
  payload's pair takes over the columns the payload names and keeps the others; when
  there is none, a row is inserted with the next \<open>id\<close> and the table's clock as the
  default of the columns the payload leaves out.
\<close>

definition tbl_upsert :: "payload \<Rightarrow> remote \<Rightarrow> remote" where
  "tbl_upsert p r =
     (if list_ex (conflicts p) (rows r)
      then r\<lparr>rows := map (\<lambda>x. if conflicts p x then merge_row p x else x) (rows r)\<rparr>
      else r\<lparr>rows := rows r @ [fresh_row p r], next_id := Suc (next_id r)\<rparr>)"

text \<open>Modelled from the spec: delete with a filter removes the rows the filter selects.\<close>

definition tbl_delete :: "(row \<Rightarrow> bool) \<Rightarrow> remote \<Rightarrow> remote" where
  "tbl_delete sel r = r\<lparr>rows := filter (\<lambda>x. \<not> sel x) (rows r)\<rparr>"

section \<open>The tracker\<close>

datatype error = ImportError string | ValueError string | RuntimeError string

datatype supabase_client = Client string string

text \<open>
  \<open>TEST_MODE\<close> is the class attribute read once from \<open>SCRAPER_TEST_MODE\<close>; it is
  carried with the object here.
\<close>

record tracker =
  supabase_url :: string
  supabase_key :: string
  client :: "supabase_client option"
  TEST_MODE :: bool

definition not_connected :: error where
  "not_connected = RuntimeError ''Not connected to Supabase''"

text \<open>\<open>__init__\<close>: the two environment variables must be set and non-empty.\<close>

definition init :: "bool \<Rightarrow> string option \<Rightarrow> string option \<Rightarrow> bool \<Rightarrow> error + tracker" where
  "init available env_url env_key test_mode =
     (if \<not> available
      then Inl (ImportError ''Supabase package not installed. Run: pip install supabase'')
      else
        (case (env_url, env_key) of
           (Some u, Some k) \<Rightarrow>
             (if u = [] \<or> k = []
              then Inl (ValueError ''SUPABASE_URL and SUPABASE_KEY environment variables must be set'')
              else Inr \<lparr>supabase_url = u, supabase_key = k, client = None, TEST_MODE = test_mode\<rparr>)
         | _ \<Rightarrow> Inl (ValueError ''SUPABASE_URL and SUPABASE_KEY environment variables must be set'')))"

text \<open>
  \<open>connect\<close>: \<open>create_client\<close> is the library's constructor, taken as a parameter
  (\<open>None\<close>: it raised). The handle is stored before the probe request is sent. The text of
  the underlying cause, appended to the message in the source, is left out.
\<close>

definition connect ::
  "(string \<Rightarrow> string \<Rightarrow> supabase_client option) \<Rightarrow> tracker \<Rightarrow> remote
     \<Rightarrow> (error + unit) \<times> tracker \<times> remote" where
  "connect create_client t r =
     (case client t of
        Some c \<Rightarrow> (Inr (), t, r)
      | None \<Rightarrow>
          (case create_client (supabase_url t) (supabase_key t) of
             None \<Rightarrow> (Inl (RuntimeError ''Failed to connect to Supabase''), t, r)
           | Some c \<Rightarrow>
               (let t' = t\<lparr>client := Some c\<rparr>;
                    (probe, r') = query (\<lambda>rs. take 1 (map row_id rs)) r
                in case probe of
                     None \<Rightarrow> (Inl (RuntimeError ''Failed to connect to Supabase''), t', r')
                   | Some d \<Rightarrow> (Inr (), t', r'))))"

definition close :: "tracker \<Rightarrow> tracker" where
  "close t = t\<lparr>client := None\<rparr>"

subsection \<open>URL tracking\<close>

definition filter_new_articles ::
  "tracker \<Rightarrow> remote \<Rightarrow> string \<Rightarrow> string list \<Rightarrow> (error + string list) \<times> remote" where
  "filter_new_articles t r sid urls =
     (if client t = None then (Inl not_connected, r)
      else if urls = [] then (Inr [], r)
      else if TEST_MODE t then (Inr urls, r)
      else
        (case query (\<lambda>rs. map url (filter (\<lambda>x. source_id x = sid \<and> url x \<in> set urls) rs)) r of
           (Some data, r') \<Rightarrow> (Inr (filter (\<lambda>u. u \<notin> set data) urls), r')
         | (None, r') \<Rightarrow> (Inr urls, r')))"

text \<open>The dictionary \<open>mark_as_seen\<close> sends for one URL: it names no \<open>first_seen\<close>.\<close>

definition seen_payload :: "string \<Rightarrow> string \<Rightarrow> timestamp \<Rightarrow> payload" where
  "seen_payload sid u current_time =
     \<lparr>p_source_id = sid, p_url = u, p_first_seen = None, p_last_checked = Some current_time\<rparr>"

text \<open>
  The loop of \<open>mark_as_seen\<close>: one upsert request per URL, in order; a request that
  raises is skipped and the loop goes on.
\<close>

fun mark_loop :: "string \<Rightarrow> timestamp \<Rightarrow> string list \<Rightarrow> nat \<Rightarrow> remote \<Rightarrow> nat \<times> remote" where
  "mark_loop sid current_time [] marked r = (marked, r)"
| "mark_loop sid current_time (u # us) marked r =
     (case command (tbl_upsert (seen_payload sid u current_time)) r of
        (True, r') \<Rightarrow> mark_loop sid current_time us (marked + 1) r'
      | (False, r') \<Rightarrow> mark_loop sid current_time us marked r')"

text \<open>\<open>current_time\<close> is the client's clock, read once per call.\<close>

definition mark_as_seen ::
  "tracker \<Rightarrow> remote \<Rightarrow> string \<Rightarrow> string list \<Rightarrow> timestamp \<Rightarrow> (error + nat) \<times> remote" where
  "mark_as_seen t r sid urls current_time =
     (if client t = None then (Inl not_connected, r)
      else if urls = [] then (Inr 0, r)
      else (case mark_loop sid current_time urls 0 r of (marked, r') \<Rightarrow> (Inr marked, r')))"

definition is_seen :: "tracker \<Rightarrow> remote \<Rightarrow> string \<Rightarrow> string \<Rightarrow> (error + bool) \<times> remote" where
  "is_seen t r sid u =
     (if client t = None then (Inl not_connected, r)
      else if TEST_MODE t then (Inr False, r)
      else
        (case query (\<lambda>rs. take 1 (map row_id (filter (\<lambda>x. source_id x = sid \<and> url x = u) rs))) r of
           (Some data, r') \<Rightarrow> (Inr (length data > 0), r')
         | (None, r') \<Rightarrow> (Inr False, r')))"

subsection \<open>Statistics\<close>

record stats =
  total_articles :: nat
  oldest_seen :: "timestamp option"
  newest_seen :: "timestamp option"

definition no_stats :: stats where
  "no_stats = \<lparr>total_articles = 0, oldest_seen = None, newest_seen = None\<rparr>"

definition first_of :: "'a list \<Rightarrow> 'a option" where
  "first_of xs = (case xs of [] \<Rightarrow> None | x # _ \<Rightarrow> Some x)"

text \<open>
  The three requests of \<open>get_stats\<close> over the rows \<open>sel\<close> selects: the exact count, then
  \<open>first_seen\<close> ordered ascending and descending with limit 1. The first request that
  raises ends the call with the defaults.
\<close>

definition stats_over :: "(row \<Rightarrow> bool) \<Rightarrow> remote \<Rightarrow> stats \<times> remote" where
  "stats_over sel r =
     (case query (\<lambda>rs. length (filter sel rs)) r of
        (None, r1) \<Rightarrow> (no_stats, r1)
      | (Some count, r1) \<Rightarrow>
          (case query (\<lambda>rs. take 1 (sort (map first_seen (filter sel rs)))) r1 of
             (None, r2) \<Rightarrow> (no_stats, r2)
           | (Some oldest_data, r2) \<Rightarrow>
               (case query (\<lambda>rs. take 1 (rev (sort (map first_seen (filter sel rs))))) r2 of
                  (None, r3) \<Rightarrow> (no_stats, r3)
                | (Some newest_data, r3) \<Rightarrow>
                    (\<lparr>total_articles = count, oldest_seen = first_of oldest_data,
                      newest_seen = first_of newest_data\<rparr>, r3))))"

text \<open>An absent or empty \<open>source_id\<close> is falsy in the source: the call covers all rows.\<close>

definition get_stats :: "tracker \<Rightarrow> remote \<Rightarrow> string option \<Rightarrow> (error + stats) \<times> remote" where
  "get_stats t r src =
     (if client t = None then (Inl not_connected, r)
      else
        (case (case src of
                 None \<Rightarrow> stats_over (\<lambda>x. True) r
               | Some s \<Rightarrow> if s \<noteq> [] then stats_over (\<lambda>x. source_id x = s) r
                           else stats_over (\<lambda>x. True) r) of
           (st, r') \<Rightarrow> (Inr st, r')))"

text \<open>
  The dictionary \<open>counts\<close> keeps insertion order: a known key is updated in place, a new
  one is appended.
\<close>

definition count_step :: "string \<Rightarrow> (string \<times> nat) list \<Rightarrow> (string \<times> nat) list" where
  "count_step s counts =
     AList.update s ((case map_of counts s of None \<Rightarrow> 0 | Some c \<Rightarrow> c) + 1) counts"

text \<open>\<open>sorted(..., key=count, reverse=True)\<close>: descending, and stable among equal counts.\<close>

definition sorted_counts :: "(string \<times> nat) list \<Rightarrow> (string \<times> nat) list" where
  "sorted_counts counts = sort_key (\<lambda>x. - int (snd x)) counts"

definition get_source_counts :: "tracker \<Rightarrow> remote \<Rightarrow> (error + (string \<times> nat) list) \<times> remote" where
  "get_source_counts t r =
     (if client t = None then (Inl not_connected, r)
      else
        (case query (\<lambda>rs. map source_id rs) r of
           (Some data, r') \<Rightarrow> (Inr (sorted_counts (fold count_step data [])), r')
         | (None, r') \<Rightarrow> (Inr [], r')))"

subsection \<open>Maintenance\<close>

definition clear_source :: "tracker \<Rightarrow> remote \<Rightarrow> string \<Rightarrow> (error + nat) \<times> remote" where
  "clear_source t r sid =
     (if client t = None then (Inl not_connected, r)
      else
        (case query (\<lambda>rs. length (filter (\<lambda>x. source_id x = sid) rs)) r of
           (None, r1) \<Rightarrow> (Inr 0, r1)
         | (Some count, r1) \<Rightarrow>
             (case command (tbl_delete (\<lambda>x. source_id x = sid)) r1 of
                (True, r2) \<Rightarrow> (Inr count, r2)
              | (False, r2) \<Rightarrow> (Inr 0, r2))))"

text \<open>\<open>clear_all\<close> deletes with the filter \<open>id != 0\<close>.\<close>

definition clear_all :: "tracker \<Rightarrow> remote \<Rightarrow> (error + nat) \<times> remote" where
  "clear_all t r =
     (if client t = None then (Inl not_connected, r)
      else
        (case query length r of
           (None, r1) \<Rightarrow> (Inr 0, r1)
         | (Some count, r1) \<Rightarrow>
             (case command (tbl_delete (\<lambda>x. row_id x \<noteq> 0)) r1 of
                (True, r2) \<Rightarrow> (Inr count, r2)
              | (False, r2) \<Rightarrow> (Inr 0, r2))))"

section \<open>Notions used to state the properties\<close>

text \<open>
  The outcomes of the next \<open>n\<close> requests under the schedule \<open>fs\<close>, in order
  (\<open>True\<close>: the request succeeds).
\<close>

definition outcomes :: "bool list \<Rightarrow> nat \<Rightarrow> bool list" where
  "outcomes fs n = map Not (take n fs) @ replicate (n - length fs) True"

text \<open>The table holds a record of the pair.\<close>

definition present :: "remote \<Rightarrow> string \<Rightarrow> string \<Rightarrow> bool" where
  "present r sid u = list_ex (\<lambda>x. source_id x = sid \<and> url x = u) (rows r)"

text \<open>The records of one pair, in table order.\<close>

definition records :: "remote \<Rightarrow> string \<Rightarrow> string \<Rightarrow> row list" where
  "records r sid u = filter (\<lambda>x. source_id x = sid \<and> url x = u) (rows r)"

text \<open>The records of the pairs that a call for \<open>sid\<close> and \<open>urls\<close> does not name.\<close>

definition others :: "string \<Rightarrow> string list \<Rightarrow> remote \<Rightarrow> row list" where
  "others sid urls r = filter (\<lambda>x. \<not> (source_id x = sid \<and> url x \<in> set urls)) (rows r)"

text \<open>
  What one call of \<open>mark_as_seen\<close> for \<open>sid\<close> and \<open>urls\<close> at time \<open>now\<close> may do to a
  record that exists: leave it as it is, or, when its pair is named, set its
  \<open>last_checked\<close> to \<open>now\<close>.
\<close>

definition touched :: "string \<Rightarrow> string list \<Rightarrow> timestamp \<Rightarrow> row \<Rightarrow> row \<Rightarrow> bool" where
  "touched sid urls now x x' \<longleftrightarrow>
     x' = x \<or> (source_id x = sid \<and> url x \<in> set urls \<and> x' = x\<lparr>last_checked := now\<rparr>)"

text \<open>A record the call adds: a named pair, first seen at the table's time \<open>d\<close>.\<close>

definition inserted :: "string \<Rightarrow> string list \<Rightarrow> timestamp \<Rightarrow> timestamp \<Rightarrow> row \<Rightarrow> bool" where
  "inserted sid urls now d x \<longleftrightarrow>
     source_id x = sid \<and> url x \<in> set urls \<and> first_seen x = d \<and> last_checked x = now"

text \<open>
  The table after the call, against the table before: the records that existed are still
  there, in place and at most touched, and what follows them was added by the call.
\<close>

definition marks_only :: "string \<Rightarrow> string list \<Rightarrow> timestamp \<Rightarrow> remote \<Rightarrow> remote \<Rightarrow> bool" where
  "marks_only sid urls now r r' \<longleftrightarrow>
     length (rows r) \<le> length (rows r')
     \<and> list_all2 (touched sid urls now) (rows r) (take (length (rows r)) (rows r'))
     \<and> list_all (inserted sid urls now (db_now r)) (drop (length (rows r)) (rows r'))"

text \<open>The table's constraint \<open>UNIQUE (source_id, url)\<close>.\<close>

definition unique_pairs :: "remote \<Rightarrow> bool" where
  "unique_pairs r \<longleftrightarrow> distinct (map (\<lambda>x. (source_id x, url x)) (rows r))"

text \<open>
  Identifiers come from a sequence that never hands out 0: the filter \<open>id != 0\<close> of
  \<open>clear_all\<close> relies on it.
\<close>

definition ids_assigned :: "remote \<Rightarrow> bool" where
  "ids_assigned r \<longleftrightarrow> next_id r \<noteq> 0 \<and> list_all (\<lambda>x. row_id x \<noteq> 0) (rows r)"

text \<open>
  \<open>get_source_counts()[sid]\<close>, read with a request that succeeds; a source that is not a
  key of the result counts as 0.
\<close>

definition source_count :: "tracker \<Rightarrow> remote \<Rightarrow> string \<Rightarrow> nat" where
  "source_count t r sid =
     (case fst (get_source_counts t (r\<lparr>faults := []\<rparr>)) of
        Inr counts \<Rightarrow> (case map_of counts sid of None \<Rightarrow> 0 | Some c \<Rightarrow> c)
      | Inl e \<Rightarrow> 0)"

text \<open>Fixtures of the examples: a tracker holding a client, and an empty table.\<close>

abbreviation demo_tracker :: "bool \<Rightarrow> tracker" where
  "demo_tracker test_mode \<equiv>
     \<lparr>supabase_url = ''https://db'', supabase_key = ''key'',
      client = Some (Client ''https://db'' ''key''), TEST_MODE = test_mode\<rparr>"

abbreviation demo_remote :: "bool list \<Rightarrow> remote" where
  "demo_remote fs \<equiv> \<lparr>rows = [], next_id = 1, db_now = 100, requests = 0, faults = fs\<rparr>"

section \<open>Requests and the marking loop\<close>

lemma execute_fields [simp]:
  "rows (snd (execute r)) = rows r"
  "next_id (snd (execute r)) = next_id r"
  "db_now (snd (execute r)) = db_now r"
  "requests (snd (execute r)) = Suc (requests r)"
  "faults (snd (execute r)) = tl (faults r)"
  by (simp_all add: execute_def split: list.splits)

lemma execute_ok: "fst (execute r) = (case faults r of [] \<Rightarrow> True | f # fs \<Rightarrow> \<not> f)"
  by (simp add: execute_def split: list.splits)

lemma outcomes_Suc: "outcomes fs (Suc n) = (case fs of [] \<Rightarrow> True | f # _ \<Rightarrow> \<not> f) # outcomes (tl fs) n"
  by (cases fs) (simp_all add: outcomes_def replicate_app_Cons_same)

lemma outcomes_0 [simp]: "outcomes fs 0 = []"
  by (simp add: outcomes_def)

lemma length_outcomes [simp]: "length (outcomes fs n) = n"
  by (simp add: outcomes_def)

lemma query_eq:
  "query q r = (if fst (execute r) then Some (q (rows r)) else None, snd (execute r))"
  by (simp add: query_def case_prod_beta)

lemma command_eq:
  "command w r = (fst (execute r), if fst (execute r) then w (snd (execute r)) else snd (execute r))"
  by (simp add: command_def case_prod_beta)

lemma tbl_upsert_fields [simp]:
  "faults (tbl_upsert p r) = faults r"
  "requests (tbl_upsert p r) = requests r"
  "db_now (tbl_upsert p r) = db_now r"
  by (simp_all add: tbl_upsert_def)

lemma mark_loop_Cons:
  "mark_loop sid now (u # us) marked r =
     mark_loop sid now us (if fst (execute r) then marked + 1 else marked)
       (if fst (execute r) then tbl_upsert (seen_payload sid u now) (snd (execute r)) else snd (execute r))"
  by (simp add: command_eq)

declare mark_loop.simps(2) [simp del]

lemma mark_loop_count:
  "fst (mark_loop sid now us marked r) = marked + length (filter (\<lambda>ok. ok) (outcomes (faults r) (length us)))"
proof (induction us arbitrary: marked r)
  case Nil
  show ?case by simp
next
  case (Cons u us)
  show ?case
    by (simp only: mark_loop_Cons Cons.IH) (simp add: outcomes_Suc execute_ok)
qed

lemma mark_loop_requests:
  "requests (snd (mark_loop sid now us marked r)) = requests r + length us"
proof (induction us arbitrary: marked r)
  case Nil
  show ?case by simp
next
  case (Cons u us)
  show ?case
    by (simp only: mark_loop_Cons Cons.IH) simp
qed

lemma mark_loop_faults:
  "faults (snd (mark_loop sid now us marked r)) = drop (length us) (faults r)"
proof (induction us arbitrary: marked r)
  case Nil
  show ?case by simp
next
  case (Cons u us)
  show ?case
    by (simp only: mark_loop_Cons Cons.IH) (simp add: drop_Suc)
qed

lemma present_execute [simp]: "present (snd (execute r)) s v = present r s v"
  by (simp add: present_def)

lemma conflicts_seen [simp]:
  "conflicts (seen_payload sid u now) x \<longleftrightarrow> source_id x = sid \<and> url x = u"
  by (simp add: conflicts_def seen_payload_def)

lemma merge_row_key [simp]:
  "source_id (merge_row p x) = source_id x" "url (merge_row p x) = url x"
  "row_id (merge_row p x) = row_id x"
  by (simp_all add: merge_row_def)

lemma fresh_row_seen [simp]:
  "source_id (fresh_row (seen_payload sid u now) r) = sid"
  "url (fresh_row (seen_payload sid u now) r) = u"
  "row_id (fresh_row p r) = next_id r"
  "first_seen (fresh_row (seen_payload sid u now) r) = db_now r"
  "last_checked (fresh_row (seen_payload sid u now) r) = now"
  by (simp_all add: fresh_row_def seen_payload_def)

lemma list_ex_map_keep: "(\<And>x. P (f x) = P x) \<Longrightarrow> list_ex P (map f xs) = list_ex P xs"
  by (induction xs) auto

lemma present_upsert_iff:
  "present (tbl_upsert (seen_payload sid u now) r) s v \<longleftrightarrow> present r s v \<or> (s = sid \<and> v = u)"
proof (cases "list_ex (conflicts (seen_payload sid u now)) (rows r)")
  case True
  then have "present r sid u"
    by (simp add: present_def list_ex_iff)
  moreover have "present (tbl_upsert (seen_payload sid u now) r) s v \<longleftrightarrow> present r s v"
    using True by (simp add: present_def tbl_upsert_def list_ex_map_keep)
  ultimately show ?thesis by auto
next
  case False
  then show ?thesis
    by (auto simp: present_def tbl_upsert_def list_ex_iff)
qed

lemma mark_loop_present_mono:
  "present r s v \<Longrightarrow> present (snd (mark_loop sid now us marked r)) s v"
proof (induction us arbitrary: marked r)
  case Nil
  then show ?case by simp
next
  case (Cons u us)
  show ?case
    by (simp only: mark_loop_Cons) (rule Cons.IH, simp add: present_upsert_iff Cons.prems)
qed

lemma mark_loop_recorded:
  "i < length us \<Longrightarrow> outcomes (faults r) (length us) ! i
     \<Longrightarrow> present (snd (mark_loop sid now us marked r)) sid (us ! i)"
proof (induction us arbitrary: marked r i)
  case Nil
  then show ?case by simp
next
  case (Cons u us)
  show ?case
  proof (cases i)
    case 0
    with Cons.prems have ok: "fst (execute r)"
      by (simp add: outcomes_Suc execute_ok)
    show ?thesis
      unfolding mark_loop_Cons using 0 ok
      by (simp add: mark_loop_present_mono present_upsert_iff)
  next
    case (Suc j)
    with Cons.prems have j: "j < length us" and o: "outcomes (tl (faults r)) (length us) ! j"
      by (simp_all add: outcomes_Suc)
    show ?thesis
      unfolding mark_loop_Cons using Suc
      by (simp add: Cons.IH [OF j] o)
  qed
qed

lemma filter_new_eq:
  assumes "client t \<noteq> None" "\<not> TEST_MODE t" "fst (execute r)"
  shows "filter_new_articles t r sid urls =
           (Inr (filter (\<lambda>u. \<not> present r sid u) urls), if urls = [] then r else snd (execute r))"
proof -
  have "u \<in> set urls \<Longrightarrow>
          u \<notin> set (map url (filter (\<lambda>x. source_id x = sid \<and> url x \<in> set urls) (rows r)))
            \<longleftrightarrow> \<not> present r sid u" for u
    by (auto simp: present_def list_ex_iff)
  then have "filter (\<lambda>u. u \<notin> set (map url (filter (\<lambda>x. source_id x = sid \<and> url x \<in> set urls) (rows r)))) urls
               = filter (\<lambda>u. \<not> present r sid u) urls"
    by (intro filter_cong) auto
  with assms show ?thesis
    by (simp add: filter_new_articles_def query_eq)
qed

lemma outcomes_nth:
  "i < n \<Longrightarrow> outcomes fs n ! i = (if i < length fs then \<not> fs ! i else True)"
  by (auto simp: outcomes_def nth_append)

lemma outcomes_all_Suc:
  "list_all (\<lambda>ok. ok) (outcomes fs (Suc n)) \<longleftrightarrow>
     list_all (\<lambda>ok. ok) (outcomes fs n) \<and> (case drop n fs of [] \<Rightarrow> True | f # _ \<Rightarrow> \<not> f)"
proof (induction n arbitrary: fs)
  case 0
  show ?case by (cases fs) (simp_all add: outcomes_Suc)
next
  case (Suc n)
  show ?case
    by (subst outcomes_Suc, subst (2) outcomes_Suc) (cases fs; simp add: Suc.IH conj_assoc)
qed

lemma conflicts_seen_fun:
  "conflicts (seen_payload sid u now) = (\<lambda>x. source_id x = sid \<and> url x = u)"
  by (rule ext) simp

lemma mark_as_seen_eq:
  "client t \<noteq> None \<Longrightarrow>
     mark_as_seen t r sid urls now
       = (Inr (fst (mark_loop sid now urls 0 r)), snd (mark_loop sid now urls 0 r))"
  by (cases urls) (auto simp: mark_as_seen_def split: prod.splits)

lemma mark_one:
  assumes "client t \<noteq> None"
  shows "mark_as_seen t r sid [u] now =
           (if fst (execute r) then (Inr 1, tbl_upsert (seen_payload sid u now) (snd (execute r)))
            else (Inr 0, snd (execute r)))"
  using assms by (simp add: mark_as_seen_eq mark_loop_Cons)

lemma length_rows_upsert:
  "length (rows (tbl_upsert (seen_payload sid u now) r))
     = length (rows r) + (if present r sid u then 0 else 1)"
  by (simp add: tbl_upsert_def present_def conflicts_seen_fun)

lemma mark_loop_created:
  "list_all (\<lambda>ok. ok) (outcomes (faults r) (length us)) \<Longrightarrow>
     length (rows (snd (mark_loop sid now us marked r)))
       = length (rows r) + length (remdups (filter (\<lambda>v. \<not> present r sid v) us))"
proof (induction us arbitrary: marked r)
  case Nil
  show ?case by simp
next
  case (Cons u us)
  define r1 where "r1 = tbl_upsert (seen_payload sid u now) (snd (execute r))"
  from Cons.prems have ok: "fst (execute r)"
    and rest: "list_all (\<lambda>ok. ok) (outcomes (faults r1) (length us))"
    by (simp_all add: outcomes_Suc execute_ok r1_def)
  have p1: "present r1 sid v \<longleftrightarrow> present r sid v \<or> v = u" for v
    by (simp add: r1_def present_upsert_iff)
  have len1: "length (rows r1) = length (rows r) + (if present r sid u then 0 else 1)"
    by (simp add: r1_def length_rows_upsert)
  have step: "mark_loop sid now (u # us) marked r = mark_loop sid now us (marked + 1) r1"
    using ok by (simp add: mark_loop_Cons r1_def)
  show ?case
  proof (cases "present r sid u")
    case True
    then have "filter (\<lambda>v. \<not> present r1 sid v) us = filter (\<lambda>v. \<not> present r sid v) us"
      by (intro filter_cong) (auto simp: p1)
    with True show ?thesis
      by (simp add: step Cons.IH [OF rest] len1)
  next
    case False
    let ?F = "filter (\<lambda>v. \<not> present r sid v) us"
    have "set (filter (\<lambda>v. \<not> present r1 sid v) us) = set ?F - {u}"
      by (auto simp: p1)
    then have "length (remdups (filter (\<lambda>v. \<not> present r1 sid v) us)) = card (set ?F - {u})"
      by (simp add: length_remdups_card_conv)
    moreover have "length (remdups (u # ?F)) = Suc (card (set ?F - {u}))"
      by (simp only: length_remdups_card_conv list.set) (simp add: card.insert_remove)
    ultimately show ?thesis
      using False by (simp only: step Cons.IH [OF rest] len1) simp
  qed
qed

lemma others_execute [simp]: "others sid U (snd (execute r)) = others sid U r"
  by (simp add: others_def)

lemma others_upsert:
  assumes "u \<in> set U"
  shows "others sid U (tbl_upsert (seen_payload sid u now) r) = others sid U r"
proof -
  have "filter (\<lambda>x. \<not> (source_id x = sid \<and> url x \<in> set U))
          (map (\<lambda>x. if conflicts (seen_payload sid u now) x then merge_row (seen_payload sid u now) x else x) xs)
        = filter (\<lambda>x. \<not> (source_id x = sid \<and> url x \<in> set U)) xs" for xs
    using assms by (induction xs) auto
  then show ?thesis
    using assms by (simp add: tbl_upsert_def others_def)
qed

lemma others_mark_loop:
  "set us \<subseteq> set U \<Longrightarrow> others sid U (snd (mark_loop sid now us marked r)) = others sid U r"
proof (induction us arbitrary: marked r)
  case Nil
  show ?case by simp
next
  case (Cons u us)
  then have "u \<in> set U" "set us \<subseteq> set U" by simp_all
  then show ?case
    by (simp only: mark_loop_Cons Cons.IH) (simp add: others_upsert)
qed


subsection \<open>What a call leaves in place\<close>

lemma marks_onlyI:
  assumes "rows r' = ys @ new" and "list_all2 (touched sid U now) (rows r) ys"
    and "list_all (inserted sid U now (db_now r)) new"
  shows "marks_only sid U now r r'"
proof -
  from assms(2) have "length ys = length (rows r)"
    by (simp add: list_all2_lengthD)
  with assms show ?thesis
    by (simp add: marks_only_def)
qed

lemma marks_onlyD:
  assumes "marks_only sid U now r r'"
  shows "\<exists>ys new. rows r' = ys @ new \<and> list_all2 (touched sid U now) (rows r) ys
           \<and> list_all (inserted sid U now (db_now r)) new"
proof -
  have "rows r' = take (length (rows r)) (rows r') @ drop (length (rows r)) (rows r')"
    by simp
  with assms show ?thesis
    unfolding marks_only_def by blast
qed

lemma marks_only_refl: "marks_only sid U now r r"
  by (simp add: marks_only_def touched_def list_all2_same)

lemma merge_row_touch: "merge_row (seen_payload sid u now) x = x\<lparr>last_checked := now\<rparr>"
  by (simp add: merge_row_def seen_payload_def)

lemma touched_same:
  "u \<in> set U \<Longrightarrow>
     touched sid U now x
       (if source_id x = sid \<and> url x = u then merge_row (seen_payload sid u now) x else x)"
  by (simp add: touched_def merge_row_touch)

lemma touched_again:
  "source_id x = sid \<Longrightarrow> url x \<in> set U \<Longrightarrow>
     touched sid U now x
       (if source_id (x\<lparr>last_checked := now\<rparr>) = sid \<and> url (x\<lparr>last_checked := now\<rparr>) = u
        then merge_row (seen_payload sid u now) (x\<lparr>last_checked := now\<rparr>)
        else x\<lparr>last_checked := now\<rparr>)"
  by (simp add: touched_def merge_row_touch)

lemma touched_step:
  assumes "u \<in> set U" and "touched sid U now x y"
  shows "touched sid U now x
           (if source_id y = sid \<and> url y = u then merge_row (seen_payload sid u now) y else y)"
proof -
  from assms(2) consider (same) "y = x"
    | (again) "source_id x = sid" "url x \<in> set U" "y = x\<lparr>last_checked := now\<rparr>"
    unfolding touched_def by blast
  then show ?thesis
  proof cases
    case same
    show ?thesis unfolding same by (rule touched_same [OF assms(1)])
  next
    case again
    show ?thesis unfolding again(3) by (rule touched_again [OF again(1,2)])
  qed
qed

lemma inserted_step:
  assumes "inserted sid U now d z"
  shows "inserted sid U now d
           (if source_id z = sid \<and> url z = u then merge_row (seen_payload sid u now) z else z)"
  using assms by (auto simp: inserted_def merge_row_touch)

lemma list_all_map_keep: "list_all P xs \<Longrightarrow> (\<And>z. P z \<Longrightarrow> P (g z)) \<Longrightarrow> list_all P (map g xs)"
  by (induction xs) auto

lemma marks_only_upsert:
  assumes "marks_only sid U now r0 r" and "db_now r = db_now r0" and "u \<in> set U"
  shows "marks_only sid U now r0 (tbl_upsert (seen_payload sid u now) r)"
proof -
  from marks_onlyD [OF assms(1)] obtain ys new
    where rows: "rows r = ys @ new"
      and ys: "list_all2 (touched sid U now) (rows r0) ys"
      and new: "list_all (inserted sid U now (db_now r0)) new"
    by blast
  let ?g = "\<lambda>y. if source_id y = sid \<and> url y = u then merge_row (seen_payload sid u now) y else y"
  show ?thesis
  proof (cases "list_ex (conflicts (seen_payload sid u now)) (rows r)")
    case True
    then have a: "rows (tbl_upsert (seen_payload sid u now) r) = map ?g ys @ map ?g new"
      by (simp add: tbl_upsert_def rows)
    from ys have b: "list_all2 (touched sid U now) (rows r0) (map ?g ys)"
      unfolding list_all2_map2 by (rule list_all2_mono) (rule touched_step [OF assms(3)])
    from new have c: "list_all (inserted sid U now (db_now r0)) (map ?g new)"
      by (rule list_all_map_keep) (rule inserted_step)
    show ?thesis
      by (rule marks_onlyI [OF a b c])
  next
    case False
    then have a: "rows (tbl_upsert (seen_payload sid u now) r)
                    = ys @ (new @ [fresh_row (seen_payload sid u now) r])"
      by (simp add: tbl_upsert_def rows)
    have "inserted sid U now (db_now r0) (fresh_row (seen_payload sid u now) r)"
      using assms(2,3) by (simp add: inserted_def)
    with new have c: "list_all (inserted sid U now (db_now r0)) (new @ [fresh_row (seen_payload sid u now) r])"
      by simp
    show ?thesis
      by (rule marks_onlyI [OF a ys c])
  qed
qed

lemma marks_only_execute [simp]:
  "marks_only sid U now r0 (snd (execute r)) = marks_only sid U now r0 r"
  by (simp add: marks_only_def)

lemma marks_only_mark_loop:
  "set us \<subseteq> set U \<Longrightarrow> marks_only sid U now r0 r \<Longrightarrow> db_now r = db_now r0
     \<Longrightarrow> marks_only sid U now r0 (snd (mark_loop sid now us marked r))"
proof (induction us arbitrary: marked r)
  case Nil
  then show ?case by simp
next
  case (Cons u us)
  then have u: "u \<in> set U" and us: "set us \<subseteq> set U" by simp_all
  show ?case
    unfolding mark_loop_Cons
    by (rule Cons.IH [OF us]) (simp_all add: marks_only_upsert [OF _ _ u] Cons.prems)
qed

lemma marks_only_mark_as_seen: "marks_only sid urls now r (snd (mark_as_seen t r sid urls now))"
proof (cases "client t = None")
  case True
  then show ?thesis by (simp add: mark_as_seen_def marks_only_refl)
next
  case False
  then show ?thesis
    by (simp add: mark_as_seen_eq marks_only_mark_loop marks_only_refl)
qed

lemma marks_only_kept:
  assumes "marks_only sid urls now r r'" and "i < length (rows r)"
  shows "i < length (rows r') \<and> row_id (rows r' ! i) = row_id (rows r ! i)
       \<and> source_id (rows r' ! i) = source_id (rows r ! i) \<and> url (rows r' ! i) = url (rows r ! i)
       \<and> first_seen (rows r' ! i) = first_seen (rows r ! i)"
proof -
  from assms have "touched sid urls now (rows r ! i) (take (length (rows r)) (rows r') ! i)"
    by (simp add: marks_only_def list_all2_conv_all_nth)
  with assms show ?thesis
    by (auto simp: marks_only_def touched_def)
qed


subsection \<open>Counting per source\<close>

lemma map_of_count_step:
  "map_of (count_step s counts) =
     (map_of counts)(s \<mapsto> (case map_of counts s of None \<Rightarrow> 0 | Some c \<Rightarrow> c) + 1)"
  by (simp add: count_step_def update_conv')

lemma distinct_count_step:
  "distinct (map fst counts) \<Longrightarrow> distinct (map fst (count_step s counts))"
  by (simp add: count_step_def distinct_update)

lemma fold_count_step_lookup:
  "(case map_of (fold count_step data counts) s of None \<Rightarrow> 0 | Some c \<Rightarrow> c)
     = (case map_of counts s of None \<Rightarrow> 0 | Some c \<Rightarrow> c) + count_list data s"
proof (induction data arbitrary: counts)
  case Nil
  show ?case by simp
next
  case (Cons d data)
  show ?case
    by (simp add: Cons.IH map_of_count_step)
qed

lemma fold_count_step_distinct:
  "distinct (map fst counts) \<Longrightarrow> distinct (map fst (fold count_step data counts))"
  by (induction data arbitrary: counts) (simp_all add: distinct_count_step)

lemma map_of_sorted_counts:
  assumes "distinct (map fst counts)"
  shows "map_of (sorted_counts counts) = map_of counts"
proof -
  have "distinct (map fst (sorted_counts counts))"
    using assms by (simp add: sorted_counts_def distinct_map)
  moreover have "set (sorted_counts counts) = set counts"
    by (simp add: sorted_counts_def)
  ultimately show ?thesis
    using assms by (simp add: map_of_inject_set)
qed

lemma count_list_source:
  "count_list (map source_id xs) s = length (filter (\<lambda>x. source_id x = s) xs)"
  by (induction xs) auto

lemma source_count_eq:
  assumes "client t \<noteq> None"
  shows "source_count t r sid = length (filter (\<lambda>x. source_id x = sid) (rows r))"
proof -
  have "fst (get_source_counts t (r\<lparr>faults := []\<rparr>))
          = Inr (sorted_counts (fold count_step (map source_id (rows r)) []))"
    using assms by (simp add: get_source_counts_def query_eq execute_ok)
  moreover have "map_of (sorted_counts (fold count_step (map source_id (rows r)) []))
                   = map_of (fold count_step (map source_id (rows r)) [])"
    by (rule map_of_sorted_counts) (simp add: fold_count_step_distinct)
  ultimately show ?thesis
    using fold_count_step_lookup [of "map source_id (rows r)" "[]" sid]
    by (simp add: source_count_def count_list_source)
qed


subsection \<open>One upsert\<close>

lemma filter_map_if:
  "(\<And>x. P x \<Longrightarrow> P (f x)) \<Longrightarrow>
     filter P (map (\<lambda>x. if P x then f x else x) xs) = map f (filter P xs)"
  by (induction xs) auto

lemma map_key_map_if:
  "(\<And>x. K (f x) = K x) \<Longrightarrow> map K (map (\<lambda>x. if P x then f x else x) xs) = map K xs"
  by (induction xs) auto

lemma length_filter_map_if:
  "(\<And>x. Q (f x) = Q x) \<Longrightarrow>
     length (filter Q (map (\<lambda>x. if P x then f x else x) xs)) = length (filter Q xs)"
  by (induction xs) auto

lemma merge_row_seen [simp]:
  "first_seen (merge_row (seen_payload sid u now) x) = first_seen x"
  "last_checked (merge_row (seen_payload sid u now) x) = now"
  by (simp_all add: merge_row_def seen_payload_def)

lemma records_upsert_present:
  assumes "present r sid u"
  shows "records (tbl_upsert (seen_payload sid u now) r) sid u
           = map (merge_row (seen_payload sid u now)) (records r sid u)"
  using assms
  by (simp add: records_def tbl_upsert_def present_def conflicts_seen_fun filter_map_if)

lemma records_absent: "\<not> present r sid u \<Longrightarrow> records r sid u = []"
  by (auto simp: records_def present_def list_ex_iff filter_empty_conv)

lemma records_upsert_absent:
  assumes "\<not> present r sid u"
  shows "records (tbl_upsert (seen_payload sid u now) r) sid u = [fresh_row (seen_payload sid u now) r]"
  using assms records_absent [OF assms]
  by (simp add: records_def tbl_upsert_def present_def conflicts_seen_fun)

lemma at_most_one_record:
  "distinct (map (\<lambda>x. (source_id x, url x)) xs) \<Longrightarrow>
     length (filter (\<lambda>x. source_id x = sid \<and> url x = u) xs) \<le> 1"
proof (induction xs)
  case Nil
  show ?case by simp
next
  case (Cons x xs)
  show ?case
  proof (cases "source_id x = sid \<and> url x = u")
    case True
    with Cons.prems have "(sid, u) \<notin> set (map (\<lambda>x. (source_id x, url x)) xs)"
      by auto
    then have "filter (\<lambda>x. source_id x = sid \<and> url x = u) xs = []"
      by (auto simp: filter_empty_conv)
    with True show ?thesis by simp
  next
    case False
    with Cons show ?thesis by auto
  qed
qed

lemma records_unique:
  assumes "unique_pairs r" and "present r sid u"
  shows "\<exists>x. records r sid u = [x]"
proof -
  from assms(1) have "length (records r sid u) \<le> 1"
    unfolding unique_pairs_def records_def by (rule at_most_one_record)
  moreover from assms(2) have "records r sid u \<noteq> []"
    by (auto simp: records_def present_def list_ex_iff filter_empty_conv)
  ultimately show ?thesis
    by (cases "records r sid u") (auto simp: length_Suc_conv)
qed

lemma source_rows_upsert:
  "length (filter (\<lambda>x. source_id x = s) (rows (tbl_upsert (seen_payload sid u now) r)))
     = length (filter (\<lambda>x. source_id x = s) (rows r))
       + (if \<not> present r sid u \<and> s = sid then 1 else 0)"
proof (cases "present r sid u")
  case True
  have "length (filter (\<lambda>x. source_id x = s)
          (map (\<lambda>x. if source_id x = sid \<and> url x = u then merge_row (seen_payload sid u now) x else x) (rows r)))
        = length (filter (\<lambda>x. source_id x = s) (rows r))"
    by (rule length_filter_map_if) simp
  with True show ?thesis
    by (simp add: tbl_upsert_def present_def conflicts_seen_fun del: filter_map)
next
  case False
  then show ?thesis
    by (simp add: tbl_upsert_def present_def conflicts_seen_fun)
qed

lemma unique_pairs_upsert:
  assumes "unique_pairs r"
  shows "unique_pairs (tbl_upsert (seen_payload sid u now) r)"
proof (cases "present r sid u")
  case True
  have "map (\<lambda>x. (source_id x, url x))
          (map (\<lambda>x. if source_id x = sid \<and> url x = u then merge_row (seen_payload sid u now) x else x) (rows r))
        = map (\<lambda>x. (source_id x, url x)) (rows r)"
    by (rule map_key_map_if) simp
  with assms True show ?thesis
    by (simp add: unique_pairs_def tbl_upsert_def present_def conflicts_seen_fun del: map_map)
next
  case False
  with assms show ?thesis
    by (auto simp: unique_pairs_def tbl_upsert_def present_def conflicts_seen_fun list_ex_iff)
qed

lemma records_fields [simp]:
  "records (snd (execute r)) sid u = records r sid u"
  "records (r\<lparr>db_now := d\<rparr>) sid u = records r sid u"
  by (simp_all add: records_def)

lemma present_db_now [simp]: "present (r\<lparr>db_now := d\<rparr>) sid u = present r sid u"
  by (simp add: present_def)

lemma unique_pairs_fields [simp]:
  "unique_pairs (snd (execute r)) = unique_pairs r"
  "unique_pairs (r\<lparr>db_now := d\<rparr>) = unique_pairs r"
  by (simp_all add: unique_pairs_def)

lemma execute_db_now [simp]:
  "fst (execute (r\<lparr>db_now := d\<rparr>)) = fst (execute r)"
  "rows (r\<lparr>db_now := d\<rparr>) = rows r"
  by (simp_all add: execute_ok)


subsection \<open>Identifiers\<close>

text \<open>Every operation that writes keeps the identifiers away from 0.\<close>

lemma ids_assigned_execute [simp]: "ids_assigned (snd (execute r)) = ids_assigned r"
  by (simp add: ids_assigned_def)

lemma ids_assigned_upsert: "ids_assigned r \<Longrightarrow> ids_assigned (tbl_upsert p r)"
  by (auto simp: ids_assigned_def tbl_upsert_def list_all_iff)

lemma ids_assigned_delete: "ids_assigned r \<Longrightarrow> ids_assigned (tbl_delete sel r)"
  by (simp add: ids_assigned_def tbl_delete_def list_all_iff)

lemma ids_assigned_mark_loop:
  "ids_assigned r \<Longrightarrow> ids_assigned (snd (mark_loop sid now us marked r))"
proof (induction us arbitrary: marked r)
  case Nil
  then show ?case by simp
next
  case (Cons u us)
  show ?case
    by (simp only: mark_loop_Cons) (rule Cons.IH, simp add: ids_assigned_upsert Cons.prems)
qed

lemma ids_assigned_mark_as_seen:
  assumes "ids_assigned r"
  shows "ids_assigned (snd (mark_as_seen t r sid urls now))"
proof (cases "client t = None")
  case True
  with assms show ?thesis by (simp add: mark_as_seen_def)
next
  case False
  with assms show ?thesis by (simp add: mark_as_seen_eq ids_assigned_mark_loop)
qed

lemma ids_assigned_clear_source:
  "ids_assigned r \<Longrightarrow> ids_assigned (snd (clear_source t r sid))"
  by (simp add: clear_source_def query_eq command_eq ids_assigned_delete)

lemma ids_assigned_clear_all:
  "ids_assigned r \<Longrightarrow> ids_assigned (snd (clear_all t r))"
  by (simp add: clear_all_def query_eq command_eq ids_assigned_delete)


subsection \<open>Statistics of an empty table\<close>

lemma stats_over_empty:
  "rows r = [] \<Longrightarrow> total_articles (fst (stats_over sel r)) = 0"
  by (simp add: stats_over_def query_eq no_stats_def)

lemma get_stats_returns:
  "client t \<noteq> None \<Longrightarrow> \<exists>st r'. get_stats t r src = (Inr st, r')"
  by (auto simp: get_stats_def split: option.splits prod.splits)

lemma get_stats_empty:
  assumes "client t \<noteq> None" and "rows r = []"
  shows "\<exists>st r'. get_stats t r src = (Inr st, r') \<and> total_articles st = 0"
proof -
  have "fst (case stats_over sel r of (st, r') \<Rightarrow> (Inr st :: error + stats, r'))
          = Inr (fst (stats_over sel r))" for sel
    by (simp add: case_prod_beta)
  then show ?thesis
    using assms stats_over_empty [OF assms(2)]
    by (cases src) (auto simp: get_stats_def case_prod_beta)
qed


subsection \<open>Holding a client\<close>

text \<open>
  A new tracker holds no client. \<open>connect\<close> stores the handle before it probes the table,
  so a probe that raises leaves the handle in place.
\<close>

lemma init_holds_no_client: "init available env_url env_key test_mode = Inr t \<Longrightarrow> client t = None"
  by (auto simp: init_def split: if_splits option.splits)

lemma connect_ok:
  assumes "client t = None" and "create_client (supabase_url t) (supabase_key t) = Some c"
    and "fst (execute r)"
  shows "connect create_client t r = (Inr (), t\<lparr>client := Some c\<rparr>, snd (execute r))"
  using assms by (simp add: connect_def query_eq)

lemma connect_probe_failed_keeps_client:
  assumes "client t = None" and "create_client (supabase_url t) (supabase_key t) = Some c"
    and "\<not> fst (execute r)"
  shows "connect create_client t r
           = (Inl (RuntimeError ''Failed to connect to Supabase''), t\<lparr>client := Some c\<rparr>, snd (execute r))"
  using assms by (simp add: connect_def query_eq)


section \<open>Marking, then filtering\<close>

text \<open>
  C1: with test mode off, on a tracker that holds a client, when the requests of the two
  calls succeed, \<open>mark_as_seen\<close> followed by \<open>filter_new_articles\<close> with the same
  source and the same URLs returns the empty list.
\<close>

theorem mark_then_filter_empty:
  assumes "client t \<noteq> None" and "\<not> TEST_MODE t"
    and "list_all (\<lambda>ok. ok) (outcomes (faults r) (Suc (length urls)))"
  shows "fst (filter_new_articles t (snd (mark_as_seen t r sid urls now)) sid urls) = Inr []"
proof (cases "urls = []")
  case True
  with assms show ?thesis
    by (simp add: mark_as_seen_def filter_new_articles_def)
next
  case False
  define r' where "r' = snd (mark_loop sid now urls 0 r)"
  from assms(3) have marks: "list_all (\<lambda>ok. ok) (outcomes (faults r) (length urls))"
    and q: "case drop (length urls) (faults r) of [] \<Rightarrow> True | f # _ \<Rightarrow> \<not> f"
    by (simp_all add: outcomes_all_Suc)
  have ok: "fst (execute r')"
    using q by (simp add: r'_def execute_ok mark_loop_faults)
  have "present r' sid u" if "u \<in> set urls" for u
  proof -
    from that obtain i where i: "i < length urls" "urls ! i = u"
      by (auto simp: in_set_conv_nth)
    with marks have "outcomes (faults r) (length urls) ! i"
      by (simp add: list_all_length)
    with i show ?thesis
      unfolding r'_def using mark_loop_recorded by blast
  qed
  then have "filter (\<lambda>u. \<not> present r' sid u) urls = []"
    by (simp add: filter_empty_conv)
  moreover have "snd (mark_as_seen t r sid urls now) = r'"
    using assms(1) False by (auto simp: mark_as_seen_def r'_def split: prod.splits)
  ultimately show ?thesis
    using filter_new_eq [OF assms(1,2) ok, of sid urls] by simp
qed

theorem mark_then_filter_empty_witness:
  "client (demo_tracker False) \<noteq> None \<and> \<not> TEST_MODE (demo_tracker False)
   \<and> list_all (\<lambda>ok. ok) (outcomes (faults (demo_remote [])) (Suc (length [''http://a/1'', ''http://a/2''])))
   \<and> fst (filter_new_articles (demo_tracker False)
            (snd (mark_as_seen (demo_tracker False) (demo_remote []) ''siteA''
                    [''http://a/1'', ''http://a/2''] 7))
            ''siteA'' [''http://a/1'', ''http://a/2'']) = Inr []"
  using mark_then_filter_empty [of "demo_tracker False" "demo_remote []"
      "[''http://a/1'', ''http://a/2'']" "''siteA''" 7]
  by (simp add: outcomes_def)

section \<open>What \<open>filter_new_articles\<close> returns\<close>

text \<open>
  C2: on a tracker that holds a client, for every source, URL list and state of the remote
  side (failing requests included), \<open>filter_new_articles\<close> returns a list that is a
  subsequence of its input, so every returned URL occurs in the input and the order is
  the input's; on the empty input it returns the empty list and leaves the remote side
  untouched, request counter included.
\<close>

theorem filter_new_subseq:
  assumes "client t \<noteq> None"
  shows "(\<exists>res r'. filter_new_articles t r sid urls = (Inr res, r')
            \<and> subseq res urls \<and> set res \<subseteq> set urls)
       \<and> filter_new_articles t r sid [] = (Inr [], r)"
  using assms
  by (auto simp: filter_new_articles_def query_eq)

theorem filter_new_subseq_witness:
  "client (demo_tracker False) \<noteq> None
   \<and> fst (filter_new_articles (demo_tracker False)
            (demo_remote []\<lparr>rows := [\<lparr>row_id = 1, source_id = ''siteA'', url = ''b'',
                                      first_seen = 3, last_checked = 4\<rparr>]\<rparr>)
            ''siteA'' [''a'', ''b'', ''c'']) = Inr [''a'', ''c'']
   \<and> subseq [''a'', ''c''] [''a'', ''b'', ''c'']
   \<and> filter_new_articles (demo_tracker False)
         (demo_remote []\<lparr>rows := [\<lparr>row_id = 1, source_id = ''siteA'', url = ''b'',
                                   first_seen = 3, last_checked = 4\<rparr>]\<rparr>) ''siteA'' []
       = (Inr [], demo_remote []\<lparr>rows := [\<lparr>row_id = 1, source_id = ''siteA'', url = ''b'',
                                              first_seen = 3, last_checked = 4\<rparr>]\<rparr>)"
proof -
  let ?r = "demo_remote []\<lparr>rows := [\<lparr>row_id = 1, source_id = ''siteA'', url = ''b'',
                                      first_seen = 3, last_checked = 4\<rparr>]\<rparr>"
  have h: "client (demo_tracker False) \<noteq> None" by simp
  have v: "fst (filter_new_articles (demo_tracker False) ?r ''siteA'' [''a'', ''b'', ''c''])
             = Inr [''a'', ''c'']"
    by (simp add: filter_new_articles_def query_def execute_def)
  from filter_new_subseq [OF h, of ?r "''siteA''" "[''a'', ''b'', ''c'']"] v
  have "subseq [''a'', ''c''] [''a'', ''b'', ''c'']"
    and "filter_new_articles (demo_tracker False) ?r ''siteA'' [] = (Inr [], ?r)"
    by auto
  with h v show ?thesis by simp
qed

section \<open>Test mode and \<open>mark_as_seen\<close>\<close>

text \<open>
  C3, as the claim states it, fails: with test mode on, \<open>mark_as_seen\<close> on an empty table
  inserts a record.
\<close>

theorem mark_as_seen_test_mode_counterexample:
  "TEST_MODE (demo_tracker True)
   \<and> rows (snd (mark_as_seen (demo_tracker True) (demo_remote []) ''siteA'' [''x''] 7))
       = [\<lparr>row_id = 1, source_id = ''siteA'', url = ''x'', first_seen = 100, last_checked = 7\<rparr>]
   \<and> rows (snd (mark_as_seen (demo_tracker True) (demo_remote []) ''siteA'' [''x''] 7))
       \<noteq> rows (demo_remote [])"
  by (simp add: mark_as_seen_def mark_loop.simps command_def execute_def tbl_upsert_def
      fresh_row_def seen_payload_def)

text \<open>
  C3, amended: \<open>mark_as_seen\<close> does not look at the test mode flag. With test mode on it
  returns the same count and leaves the remote side in the same state as with test mode
  off. No record is removed or moved; every record that existed keeps its \<open>id\<close>, its
  pair and its \<open>first_seen\<close>, and is either unchanged or, when the call names its pair,
  has \<open>last_checked\<close> set to the call's time; the records of the pairs the call does not
  name are identical; and every record added is of a named pair, with \<open>first_seen\<close> the
  table's time and \<open>last_checked\<close> the call's time.
\<close>

theorem mark_as_seen_ignores_test_mode:
  "mark_as_seen (t\<lparr>TEST_MODE := True\<rparr>) r sid urls now
     = mark_as_seen (t\<lparr>TEST_MODE := False\<rparr>) r sid urls now
   \<and> marks_only sid urls now r (snd (mark_as_seen t r sid urls now))
   \<and> (\<forall>i<length (rows r).
         i < length (rows (snd (mark_as_seen t r sid urls now)))
         \<and> row_id (rows (snd (mark_as_seen t r sid urls now)) ! i) = row_id (rows r ! i)
         \<and> source_id (rows (snd (mark_as_seen t r sid urls now)) ! i) = source_id (rows r ! i)
         \<and> url (rows (snd (mark_as_seen t r sid urls now)) ! i) = url (rows r ! i)
         \<and> first_seen (rows (snd (mark_as_seen t r sid urls now)) ! i) = first_seen (rows r ! i))
   \<and> others sid urls (snd (mark_as_seen t r sid urls now)) = others sid urls r"
proof -
  have same: "mark_as_seen (t\<lparr>TEST_MODE := True\<rparr>) r sid urls now
                = mark_as_seen (t\<lparr>TEST_MODE := False\<rparr>) r sid urls now"
    by (simp add: mark_as_seen_def)
  have frame: "marks_only sid urls now r (snd (mark_as_seen t r sid urls now))"
    by (rule marks_only_mark_as_seen)
  have rest: "others sid urls (snd (mark_as_seen t r sid urls now)) = others sid urls r"
  proof (cases "client t = None")
    case True
    then show ?thesis by (simp add: mark_as_seen_def)
  next
    case False
    then show ?thesis by (simp add: mark_as_seen_eq others_mark_loop)
  qed
  from same frame marks_only_kept [OF frame] rest show ?thesis
    by blast
qed

theorem mark_as_seen_ignores_test_mode_witness:
  "mark_as_seen (demo_tracker True)
      \<lparr>rows = [\<lparr>row_id = 1, source_id = ''siteA'', url = ''x'', first_seen = 3, last_checked = 4\<rparr>,
               \<lparr>row_id = 2, source_id = ''siteB'', url = ''x'', first_seen = 5, last_checked = 6\<rparr>],
       next_id = 3, db_now = 100, requests = 0, faults = []\<rparr> ''siteA'' [''x'', ''y''] 7
     = mark_as_seen (demo_tracker False)
      \<lparr>rows = [\<lparr>row_id = 1, source_id = ''siteA'', url = ''x'', first_seen = 3, last_checked = 4\<rparr>,
               \<lparr>row_id = 2, source_id = ''siteB'', url = ''x'', first_seen = 5, last_checked = 6\<rparr>],
       next_id = 3, db_now = 100, requests = 0, faults = []\<rparr> ''siteA'' [''x'', ''y''] 7
   \<and> marks_only ''siteA'' [''x'', ''y''] 7
        \<lparr>rows = [\<lparr>row_id = 1, source_id = ''siteA'', url = ''x'', first_seen = 3, last_checked = 4\<rparr>,
                 \<lparr>row_id = 2, source_id = ''siteB'', url = ''x'', first_seen = 5, last_checked = 6\<rparr>],
         next_id = 3, db_now = 100, requests = 0, faults = []\<rparr>
        (snd (mark_as_seen (demo_tracker True)
          \<lparr>rows = [\<lparr>row_id = 1, source_id = ''siteA'', url = ''x'', first_seen = 3, last_checked = 4\<rparr>,
                   \<lparr>row_id = 2, source_id = ''siteB'', url = ''x'', first_seen = 5, last_checked = 6\<rparr>],
           next_id = 3, db_now = 100, requests = 0, faults = []\<rparr> ''siteA'' [''x'', ''y''] 7))
   \<and> rows (snd (mark_as_seen (demo_tracker True)
          \<lparr>rows = [\<lparr>row_id = 1, source_id = ''siteA'', url = ''x'', first_seen = 3, last_checked = 4\<rparr>,
                   \<lparr>row_id = 2, source_id = ''siteB'', url = ''x'', first_seen = 5, last_checked = 6\<rparr>],
           next_id = 3, db_now = 100, requests = 0, faults = []\<rparr> ''siteA'' [''x'', ''y''] 7))
       = [\<lparr>row_id = 1, source_id = ''siteA'', url = ''x'', first_seen = 3, last_checked = 7\<rparr>,
          \<lparr>row_id = 2, source_id = ''siteB'', url = ''x'', first_seen = 5, last_checked = 6\<rparr>,
          \<lparr>row_id = 3, source_id = ''siteA'', url = ''y'', first_seen = 100, last_checked = 7\<rparr>]"
proof -
  let ?r = "\<lparr>rows = [\<lparr>row_id = 1, source_id = ''siteA'', url = ''x'', first_seen = 3, last_checked = 4\<rparr>,
                   \<lparr>row_id = 2, source_id = ''siteB'', url = ''x'', first_seen = 5, last_checked = 6\<rparr>],
             next_id = 3, db_now = 100, requests = 0, faults = []\<rparr>"
  note w = mark_as_seen_ignores_test_mode [of "demo_tracker True" ?r "''siteA''" "[''x'', ''y'']" 7]
  have a: "mark_as_seen (demo_tracker True) ?r ''siteA'' [''x'', ''y''] 7
             = mark_as_seen (demo_tracker False) ?r ''siteA'' [''x'', ''y''] 7"
    using w by simp
  have b: "marks_only ''siteA'' [''x'', ''y''] 7 ?r
             (snd (mark_as_seen (demo_tracker True) ?r ''siteA'' [''x'', ''y''] 7))"
    using w by (rule conjunct1 [OF conjunct2])
  have c: "rows (snd (mark_as_seen (demo_tracker True) ?r ''siteA'' [''x'', ''y''] 7))
       = [\<lparr>row_id = 1, source_id = ''siteA'', url = ''x'', first_seen = 3, last_checked = 7\<rparr>,
          \<lparr>row_id = 2, source_id = ''siteB'', url = ''x'', first_seen = 5, last_checked = 6\<rparr>,
          \<lparr>row_id = 3, source_id = ''siteA'', url = ''y'', first_seen = 100, last_checked = 7\<rparr>]"
    by (simp add: mark_as_seen_def mark_loop.simps command_def execute_def tbl_upsert_def
        fresh_row_def merge_row_def seen_payload_def conflicts_def)
  from a b c show ?thesis
    by (intro conjI)
qed

section \<open>A query that raises\<close>

text \<open>
  C4: on a tracker that holds a client, with test mode off and a non-empty URL list, when
  the query request raises, \<open>filter_new_articles\<close> returns the whole input list and no
  error; that one request is all it sent.
\<close>

theorem filter_new_fail_open:
  assumes "client t \<noteq> None" and "urls \<noteq> []" and "\<not> TEST_MODE t" and "faults r = True # fs"
  shows "filter_new_articles t r sid urls
           = (Inr urls, r\<lparr>requests := Suc (requests r), faults := fs\<rparr>)"
  using assms
  by (simp add: filter_new_articles_def query_def execute_def)

theorem filter_new_fail_open_witness:
  "client (demo_tracker False) \<noteq> None \<and> [''x'', ''y''] \<noteq> [] \<and> \<not> TEST_MODE (demo_tracker False)
   \<and> faults (demo_remote [True]) = True # []
   \<and> filter_new_articles (demo_tracker False) (demo_remote [True]) ''siteA'' [''x'', ''y'']
       = (Inr [''x'', ''y''], demo_remote [True]\<lparr>requests := Suc (requests (demo_remote [True])), faults := []\<rparr>)"
  using filter_new_fail_open [of "demo_tracker False" "[''x'', ''y'']" "demo_remote [True]" "[]" "''siteA''"]
  by simp

section \<open>Upserts that raise\<close>

text \<open>
  C5: on a tracker that holds a client, \<open>mark_as_seen\<close> always returns a count and never
  an error. It sends one upsert per URL whatever the earlier ones did, the count is the
  number of upserts that succeeded, each URL whose upsert succeeded is in the table
  afterwards, and the count is 0 on the empty input and when every upsert raises.
\<close>

theorem mark_as_seen_counts_successes:
  assumes "client t \<noteq> None"
  shows "fst (mark_as_seen t r sid urls now)
           = Inr (length (filter (\<lambda>ok. ok) (outcomes (faults r) (length urls))))
       \<and> requests (snd (mark_as_seen t r sid urls now)) = requests r + length urls
       \<and> (\<forall>i<length urls. outcomes (faults r) (length urls) ! i
             \<longrightarrow> present (snd (mark_as_seen t r sid urls now)) sid (urls ! i))
       \<and> (urls = [] \<longrightarrow> fst (mark_as_seen t r sid urls now) = Inr 0)
       \<and> ((\<forall>i<length urls. \<not> outcomes (faults r) (length urls) ! i)
             \<longrightarrow> fst (mark_as_seen t r sid urls now) = Inr 0)"
proof -
  have "filter (\<lambda>ok. ok) (outcomes (faults r) (length urls)) = []"
    if "\<forall>i<length urls. \<not> outcomes (faults r) (length urls) ! i"
    using that by (auto simp: filter_empty_conv in_set_conv_nth)
  then show ?thesis
    by (simp add: mark_as_seen_eq [OF assms] mark_loop_count mark_loop_requests mark_loop_recorded)
qed

theorem mark_as_seen_counts_successes_witness:
  "client (demo_tracker False) \<noteq> None
   \<and> mark_as_seen (demo_tracker False) (demo_remote [True, True]) ''siteA'' [''x'', ''y''] 7
       = (Inr 0, \<lparr>rows = [], next_id = 1, db_now = 100, requests = 2, faults = []\<rparr>)
   \<and> fst (mark_as_seen (demo_tracker False) (demo_remote [True, False]) ''siteA'' [''x'', ''y''] 7)
       = Inr 1
   \<and> present (snd (mark_as_seen (demo_tracker False) (demo_remote [True, False]) ''siteA'' [''x'', ''y''] 7))
        ''siteA'' ''y''"
  using mark_as_seen_counts_successes [of "demo_tracker False" "demo_remote [True, True]" "''siteA''"
      "[''x'', ''y'']" 7]
    mark_as_seen_counts_successes [of "demo_tracker False" "demo_remote [True, False]" "''siteA''"
      "[''x'', ''y'']" 7]
  by (simp add: mark_as_seen_def mark_loop.simps command_def execute_def tbl_upsert_def
      present_def fresh_row_def seen_payload_def conflicts_def)

section \<open>Marking the same pair twice\<close>

text \<open>
  C6: on a table that respects its uniqueness constraint, two calls of \<open>mark_as_seen\<close>
  for the same pair, both recording it, leave exactly one record of the pair; the count
  of the source grows by 1 over the two calls when the pair is new (and not at all when
  it was there); \<open>first_seen\<close>, set from the table's clock by the first call for a new
  pair, is the same after the second call although the table's clock has moved on; and
  \<open>last_checked\<close> is the first call's time after the first call and the second call's
  time after the second.
\<close>

theorem mark_twice_one_record:
  assumes "client t \<noteq> None" and "unique_pairs r"
    and "fst (mark_as_seen t r sid [u] t1) = Inr 1"
    and "fst (mark_as_seen t (snd (mark_as_seen t r sid [u] t1)\<lparr>db_now := d2\<rparr>) sid [u] t2) = Inr 1"
  shows "let r1 = snd (mark_as_seen t r sid [u] t1);
             r2 = snd (mark_as_seen t (r1\<lparr>db_now := d2\<rparr>) sid [u] t2)
         in \<exists>x1 x2. records r1 sid u = [x1] \<and> records r2 sid u = [x2]
              \<and> (\<not> present r sid u \<longrightarrow> first_seen x1 = db_now r)
              \<and> first_seen x2 = first_seen x1 \<and> last_checked x1 = t1 \<and> last_checked x2 = t2
              \<and> source_count t r2 sid = source_count t r sid + (if present r sid u then 0 else 1)"
proof -
  define e1 where "e1 = snd (execute r)"
  define r1 where "r1 = tbl_upsert (seen_payload sid u t1) e1"
  define e2 where "e2 = snd (execute (r1\<lparr>db_now := d2\<rparr>))"
  define r2 where "r2 = tbl_upsert (seen_payload sid u t2) e2"
  from assms(1,3) have ok1: "fst (execute r)"
    by (simp add: mark_one split: if_splits)
  then have m1: "snd (mark_as_seen t r sid [u] t1) = r1"
    using assms(1) by (simp add: mark_one r1_def e1_def)
  from assms(4) have "fst (mark_as_seen t (r1\<lparr>db_now := d2\<rparr>) sid [u] t2) = Inr 1"
    by (simp only: m1)
  with assms(1) have ok2: "fst (execute (r1\<lparr>db_now := d2\<rparr>))"
    by (simp add: mark_one split: if_splits)
  then have m2: "snd (mark_as_seen t (r1\<lparr>db_now := d2\<rparr>) sid [u] t2) = r2"
    using assms(1) by (simp add: mark_one r2_def e2_def)
  have p1: "present r1 sid u"
    by (simp add: r1_def present_upsert_iff)
  have u1: "unique_pairs r1"
    using assms(2) by (simp add: r1_def e1_def unique_pairs_upsert)
  from records_unique [OF u1 p1] obtain x1 where x1: "records r1 sid u = [x1]" ..
  have lc1: "last_checked x1 = t1 \<and> (\<not> present r sid u \<longrightarrow> first_seen x1 = db_now r)"
  proof (cases "present r sid u")
    case True
    then have "present e1 sid u" by (simp add: e1_def)
    from records_upsert_present [OF this, of t1] x1 True show ?thesis
      by (auto simp: r1_def)
  next
    case False
    then have "\<not> present e1 sid u" by (simp add: e1_def)
    from records_upsert_absent [OF this, of t1] x1 show ?thesis
      by (auto simp: r1_def e1_def)
  qed
  have p2: "present e2 sid u"
    using p1 by (simp add: e2_def)
  have x2: "records r2 sid u = [merge_row (seen_payload sid u t2) x1]"
    using records_upsert_present [OF p2, of t2] x1 by (simp add: r2_def e2_def)
  have c1: "length (filter (\<lambda>x. source_id x = sid) (rows r1))
              = length (filter (\<lambda>x. source_id x = sid) (rows r)) + (if present r sid u then 0 else 1)"
    by (simp add: r1_def e1_def source_rows_upsert)
  have c2: "length (filter (\<lambda>x. source_id x = sid) (rows r2))
              = length (filter (\<lambda>x. source_id x = sid) (rows r1))"
    using p2 by (simp add: r2_def source_rows_upsert) (simp add: e2_def)
  have "source_count t r2 sid = source_count t r sid + (if present r sid u then 0 else 1)"
    by (simp only: source_count_eq [OF assms(1)] c1 c2)
  with x1 x2 lc1 show ?thesis
    by (simp add: m1 m2)
qed

theorem mark_twice_one_record_witness:
  "client (demo_tracker False) \<noteq> None \<and> unique_pairs (demo_remote [])
   \<and> fst (mark_as_seen (demo_tracker False) (demo_remote []) ''siteA'' [''x''] 7) = Inr 1
   \<and> fst (mark_as_seen (demo_tracker False)
            (snd (mark_as_seen (demo_tracker False) (demo_remote []) ''siteA'' [''x''] 7)\<lparr>db_now := 200\<rparr>)
            ''siteA'' [''x''] 9) = Inr 1
   \<and> (let r1 = snd (mark_as_seen (demo_tracker False) (demo_remote []) ''siteA'' [''x''] 7);
           r2 = snd (mark_as_seen (demo_tracker False) (r1\<lparr>db_now := 200\<rparr>) ''siteA'' [''x''] 9)
       in \<exists>x1 x2. records r1 ''siteA'' ''x'' = [x1] \<and> records r2 ''siteA'' ''x'' = [x2]
            \<and> (\<not> present (demo_remote []) ''siteA'' ''x'' \<longrightarrow> first_seen x1 = db_now (demo_remote []))
            \<and> first_seen x2 = first_seen x1 \<and> last_checked x1 = 7 \<and> last_checked x2 = 9
            \<and> source_count (demo_tracker False) r2 ''siteA''
                = source_count (demo_tracker False) (demo_remote []) ''siteA''
                  + (if present (demo_remote []) ''siteA'' ''x'' then 0 else 1))"
proof -
  have h1: "client (demo_tracker False) \<noteq> None" by simp
  have h2: "unique_pairs (demo_remote [])" by (simp add: unique_pairs_def)
  have h3: "fst (mark_as_seen (demo_tracker False) (demo_remote []) ''siteA'' [''x''] 7) = Inr 1"
    by (simp add: mark_one execute_ok)
  have h4: "fst (mark_as_seen (demo_tracker False)
            (snd (mark_as_seen (demo_tracker False) (demo_remote []) ''siteA'' [''x''] 7)\<lparr>db_now := 200\<rparr>)
            ''siteA'' [''x''] 9) = Inr 1"
    by (simp add: mark_one execute_ok)
  from mark_twice_one_record [OF h1 h2 h3 h4] h1 h2 h3 h4 show ?thesis
    by blast
qed

section \<open>Reading in test mode\<close>

text \<open>
  C7: on a tracker that holds a client, with test mode on, \<open>filter_new_articles\<close> returns
  its input list as it is and \<open>is_seen\<close> returns false, for every source, URL list and
  state of the table, and neither sends a request.
\<close>

theorem test_mode_reads:
  assumes "client t \<noteq> None" and "TEST_MODE t"
  shows "filter_new_articles t r sid urls = (Inr urls, r) \<and> is_seen t r sid u = (Inr False, r)"
  using assms
  by (simp add: filter_new_articles_def is_seen_def)

theorem test_mode_reads_witness:
  "client (demo_tracker True) \<noteq> None \<and> TEST_MODE (demo_tracker True)
   \<and> filter_new_articles (demo_tracker True)
        (snd (mark_as_seen (demo_tracker True) (demo_remote []) ''siteA'' [''x'', ''y''] 7))
        ''siteA'' [''x'', ''y'']
       = (Inr [''x'', ''y''], snd (mark_as_seen (demo_tracker True) (demo_remote []) ''siteA'' [''x'', ''y''] 7))
   \<and> is_seen (demo_tracker True)
        (snd (mark_as_seen (demo_tracker True) (demo_remote []) ''siteA'' [''x'', ''y''] 7))
        ''siteA'' ''x''
       = (Inr False, snd (mark_as_seen (demo_tracker True) (demo_remote []) ''siteA'' [''x'', ''y''] 7))"
  using test_mode_reads [of "demo_tracker True"
      "snd (mark_as_seen (demo_tracker True) (demo_remote []) ''siteA'' [''x'', ''y''] 7)"
      "''siteA''" "[''x'', ''y'']" "''x''"]
  by simp

section \<open>Operations on a tracker that holds no client\<close>

text \<open>
  Each of \<open>filter_new_articles\<close>, \<open>mark_as_seen\<close>, \<open>is_seen\<close>, \<open>get_stats\<close>,
  \<open>get_source_counts\<close>, \<open>clear_source\<close> and \<open>clear_all\<close>, called while the tracker holds
  no client handle, raises the not-connected error and leaves the remote side untouched:
  no request is sent.
\<close>

lemma no_client_raises:
  assumes "client t = None"
  shows "filter_new_articles t r sid urls = (Inl not_connected, r)
       \<and> mark_as_seen t r sid urls now = (Inl not_connected, r)
       \<and> is_seen t r sid u = (Inl not_connected, r)
       \<and> get_stats t r src = (Inl not_connected, r)
       \<and> get_source_counts t r = (Inl not_connected, r)
       \<and> clear_source t r sid = (Inl not_connected, r)
       \<and> clear_all t r = (Inl not_connected, r)"
  using assms
  by (simp add: filter_new_articles_def mark_as_seen_def is_seen_def get_stats_def
      get_source_counts_def clear_source_def clear_all_def)


text \<open>
  C8: an operation called before any successful \<open>connect\<close> is to raise the not-connected
  error without a remote call. The source does so only while no handle is held. A new
  tracker holds none; when the probe of its first \<open>connect\<close> raises, \<open>connect\<close> raises
  too, but the handle it stored before the probe stays. \<open>filter_new_articles\<close> then
  passes the guard, queries the table and returns the URLs that are new, and a second
  \<open>connect\<close> returns at once without probing.
\<close>

theorem failed_probe_leaves_handle:
  "init True (Some ''https://db'') (Some ''key'') False
     = Inr \<lparr>supabase_url = ''https://db'', supabase_key = ''key'', client = None, TEST_MODE = False\<rparr>
   \<and> connect (\<lambda>u k. Some (Client u k))
        \<lparr>supabase_url = ''https://db'', supabase_key = ''key'', client = None, TEST_MODE = False\<rparr>
        \<lparr>rows = [\<lparr>row_id = 1, source_id = ''siteA'', url = ''x'', first_seen = 3, last_checked = 4\<rparr>],
         next_id = 2, db_now = 100, requests = 0, faults = [True]\<rparr>
     = (Inl (RuntimeError ''Failed to connect to Supabase''), demo_tracker False,
        \<lparr>rows = [\<lparr>row_id = 1, source_id = ''siteA'', url = ''x'', first_seen = 3, last_checked = 4\<rparr>],
         next_id = 2, db_now = 100, requests = 1, faults = []\<rparr>)
   \<and> filter_new_articles (demo_tracker False)
        \<lparr>rows = [\<lparr>row_id = 1, source_id = ''siteA'', url = ''x'', first_seen = 3, last_checked = 4\<rparr>],
         next_id = 2, db_now = 100, requests = 1, faults = []\<rparr> ''siteA'' [''x'', ''y'']
     = (Inr [''y''],
        \<lparr>rows = [\<lparr>row_id = 1, source_id = ''siteA'', url = ''x'', first_seen = 3, last_checked = 4\<rparr>],
         next_id = 2, db_now = 100, requests = 2, faults = []\<rparr>)
   \<and> fst (filter_new_articles (demo_tracker False)
        \<lparr>rows = [\<lparr>row_id = 1, source_id = ''siteA'', url = ''x'', first_seen = 3, last_checked = 4\<rparr>],
         next_id = 2, db_now = 100, requests = 1, faults = []\<rparr> ''siteA'' [''x'', ''y''])
     \<noteq> Inl not_connected
   \<and> connect (\<lambda>u k. Some (Client u k)) (demo_tracker False)
        \<lparr>rows = [\<lparr>row_id = 1, source_id = ''siteA'', url = ''x'', first_seen = 3, last_checked = 4\<rparr>],
         next_id = 2, db_now = 100, requests = 1, faults = []\<rparr>
     = (Inr (), demo_tracker False,
        \<lparr>rows = [\<lparr>row_id = 1, source_id = ''siteA'', url = ''x'', first_seen = 3, last_checked = 4\<rparr>],
         next_id = 2, db_now = 100, requests = 1, faults = []\<rparr>)"
  by (simp add: init_def connect_def filter_new_articles_def query_def execute_def)

section \<open>Clearing the table\<close>

text \<open>
  C9: on a tracker that holds a client, when the count request and the delete request of
  \<open>clear_all\<close> succeed, the call returns the number of records the table held, the table
  is empty afterwards, and \<open>get_stats\<close>, for any source or none, reports a total of 0.
\<close>

theorem clear_all_empties:
  assumes "client t \<noteq> None" and "ids_assigned r"
    and "list_all (\<lambda>ok. ok) (outcomes (faults r) 2)"
  shows "fst (clear_all t r) = Inr (length (rows r))
       \<and> rows (snd (clear_all t r)) = []
       \<and> (\<exists>st r'. get_stats t (snd (clear_all t r)) src = (Inr st, r') \<and> total_articles st = 0)"
proof -
  from assms(3) have ok1: "fst (execute r)" and ok2: "fst (execute (snd (execute r)))"
    by (simp_all add: numeral_2_eq_2 outcomes_Suc execute_ok)
  from assms(2) have "filter (\<lambda>x. \<not> row_id x \<noteq> 0) (rows r) = []"
    by (auto simp: ids_assigned_def list_all_iff filter_empty_conv)
  moreover from assms(1) obtain c where "client t = Some c"
    by auto
  ultimately have c: "fst (clear_all t r) = Inr (length (rows r))"
    and e: "rows (snd (clear_all t r)) = []"
    using ok1 ok2 by (simp_all add: clear_all_def query_eq command_eq tbl_delete_def)
  from c e get_stats_empty [OF assms(1) e] show ?thesis
    by blast
qed

theorem clear_all_empties_witness:
  "client (demo_tracker False) \<noteq> None
   \<and> ids_assigned (snd (mark_as_seen (demo_tracker False) (demo_remote []) ''siteA'' [''x'', ''y''] 7))
   \<and> list_all (\<lambda>ok. ok)
        (outcomes (faults (snd (mark_as_seen (demo_tracker False) (demo_remote []) ''siteA'' [''x'', ''y''] 7))) 2)
   \<and> fst (clear_all (demo_tracker False)
            (snd (mark_as_seen (demo_tracker False) (demo_remote []) ''siteA'' [''x'', ''y''] 7))) = Inr 2
   \<and> rows (snd (clear_all (demo_tracker False)
            (snd (mark_as_seen (demo_tracker False) (demo_remote []) ''siteA'' [''x'', ''y''] 7)))) = []"
proof -
  let ?r = "snd (mark_as_seen (demo_tracker False) (demo_remote []) ''siteA'' [''x'', ''y''] 7)"
  have r: "?r = \<lparr>rows = [\<lparr>row_id = 1, source_id = ''siteA'', url = ''x'', first_seen = 100, last_checked = 7\<rparr>,
                          \<lparr>row_id = 2, source_id = ''siteA'', url = ''y'', first_seen = 100, last_checked = 7\<rparr>],
                  next_id = 3, db_now = 100, requests = 2, faults = []\<rparr>"
    by (simp add: mark_as_seen_def mark_loop.simps command_def execute_def tbl_upsert_def
        fresh_row_def seen_payload_def conflicts_def)
  have h1: "client (demo_tracker False) \<noteq> None" by simp
  have h2: "ids_assigned ?r" unfolding r by (simp add: ids_assigned_def)
  have h3: "list_all (\<lambda>ok. ok) (outcomes (faults ?r) 2)" unfolding r by (simp add: outcomes_def list_all_iff)
  from clear_all_empties [OF h1 h2 h3] have "fst (clear_all (demo_tracker False) ?r) = Inr (length (rows ?r))"
    and "rows (snd (clear_all (demo_tracker False) ?r)) = []"
    by blast+
  moreover have "length (rows ?r) = 2" unfolding r by simp
  ultimately show ?thesis
    using h1 h2 h3 by simp
qed

section \<open>Duplicates in one call\<close>

text \<open>
  C10: on a tracker that holds a client, when every upsert succeeds, \<open>mark_as_seen\<close>
  returns the length of the input list, while the number of records it creates is the
  number of distinct URLs of the input that the table did not hold: a URL that occurs
  twice is counted twice and recorded once.
\<close>

theorem mark_as_seen_counts_duplicates:
  assumes "client t \<noteq> None" and "list_all (\<lambda>ok. ok) (outcomes (faults r) (length urls))"
  shows "fst (mark_as_seen t r sid urls now) = Inr (length urls)
       \<and> length (rows (snd (mark_as_seen t r sid urls now)))
           = length (rows r) + length (remdups (filter (\<lambda>u. \<not> present r sid u) urls))"
proof -
  from assms(2) have "filter (\<lambda>ok. ok) (outcomes (faults r) (length urls)) = outcomes (faults r) (length urls)"
    by (simp add: list_all_iff)
  then show ?thesis
    by (simp add: mark_as_seen_eq [OF assms(1)] mark_loop_count mark_loop_created [OF assms(2)])
qed

theorem mark_as_seen_counts_duplicates_witness:
  "client (demo_tracker False) \<noteq> None
   \<and> list_all (\<lambda>ok. ok) (outcomes (faults (demo_remote [])) (length [''x'', ''x'']))
   \<and> fst (mark_as_seen (demo_tracker False) (demo_remote []) ''siteA'' [''x'', ''x''] 7) = Inr 2
   \<and> length (rows (snd (mark_as_seen (demo_tracker False) (demo_remote []) ''siteA'' [''x'', ''x''] 7))) = 1"
  using mark_as_seen_counts_duplicates [of "demo_tracker False" "demo_remote []" "[''x'', ''x'']" "''siteA''" 7]
  by (simp add: outcomes_def present_def)

end
